theory Spec2Isabelle
  imports Main
begin

section \<open>The root component: props, state and navigation callbacks\<close>

text \<open>
  Step numbers are integers. A function value handed in by the embedding application is
  represented by its identity: React compares such values by reference, and the only thing
  the component does with one is to call it.
\<close>

datatype callback = Callback nat

text \<open>
  \<^verbatim>\<open>StepPageProps\<close>: \<^verbatim>\<open>defaultStep?: number\<close>, \<^verbatim>\<open>currentStep?: number\<close>,
  \<^verbatim>\<open>onStepChange?: (step: number) => void\<close>. An absent prop is \<open>None\<close>.
\<close>

record StepPageProps =
  defaultStep :: "int option"
  currentStep_prop :: "int option"
  onStepChange_prop :: "callback option"

text \<open>
  The component instance: the two props read on every render, the two \<^verbatim>\<open>useState\<close>
  cells, and the calls made so far to functions of the embedding application (oldest
  first), each with the arguments it received.
\<close>

record controller =
  controlledStep :: "int option"
  onStepChange :: "callback option"
  internalStep :: int
  totalSteps :: int
  invoked :: "(callback \<times> int list) list"

text \<open>
  Mounting: \<^verbatim>\<open>defaultStep = 1\<close> is the parameter default, \<^verbatim>\<open>useState(defaultStep)\<close> and
  \<^verbatim>\<open>useState(0)\<close> initialise the two cells.
\<close>

definition StepPage_mount :: "StepPageProps \<Rightarrow> controller" where
  "StepPage_mount p =
     \<lparr>controlledStep = currentStep_prop p,
      onStepChange = onStepChange_prop p,
      internalStep = (case defaultStep p of None \<Rightarrow> 1 | Some d \<Rightarrow> d),
      totalSteps = 0,
      invoked = []\<rparr>"

definition setInternalStep :: "int \<Rightarrow> controller \<Rightarrow> controller" where
  "setInternalStep v c = c\<lparr>internalStep := v\<rparr>"

definition setTotalSteps :: "int \<Rightarrow> controller \<Rightarrow> controller" where
  "setTotalSteps v c = c\<lparr>totalSteps := v\<rparr>"

text \<open>Calling a function of the embedding application appends to the log.\<close>

definition invoke :: "callback \<Rightarrow> int list \<Rightarrow> controller \<Rightarrow> controller" where
  "invoke cb args c = c\<lparr>invoked := invoked c @ [(cb, args)]\<rparr>"

text \<open>
  \<^verbatim>\<open>const isControlled = controlledStep !== undefined\<close>,
  \<^verbatim>\<open>const currentStep = isControlled ? controlledStep : internalStep\<close>.
\<close>

definition isControlled :: "controller \<Rightarrow> bool" where
  "isControlled c = (controlledStep c \<noteq> None)"

definition currentStep :: "controller \<Rightarrow> int" where
  "currentStep c = (case controlledStep c of Some s \<Rightarrow> s | None \<Rightarrow> internalStep c)"

text \<open>
  The closure \<^verbatim>\<open>goToStep\<close>. Its first argument is the render that created it: the
  variables \<^verbatim>\<open>totalSteps\<close>, \<^verbatim>\<open>isControlled\<close> and \<^verbatim>\<open>onStepChange\<close> in its body are
  the values of that render. Its last argument is the component at the moment of the call,
  on which the state setter and the application's function act.
\<close>

definition goToStep :: "controller \<Rightarrow> int \<Rightarrow> controller \<Rightarrow> controller" where
  "goToStep r step c =
     (if step < 1 \<or> step > totalSteps r then c
      else if isControlled r then
        (case onStepChange r of None \<Rightarrow> c | Some cb \<Rightarrow> invoke cb [step] c)
      else setInternalStep step c)"

text \<open>
  The closures \<^verbatim>\<open>nextStep\<close> and \<^verbatim>\<open>prevStep\<close> capture \<^verbatim>\<open>currentStep\<close> and the
  \<^verbatim>\<open>goToStep\<close> closure of the render that created them.
\<close>

record step_closure =
  captured_currentStep :: int
  captured_goToStep :: controller

definition nextStep :: "step_closure \<Rightarrow> controller \<Rightarrow> controller" where
  "nextStep k c = goToStep (captured_goToStep k) (captured_currentStep k + 1) c"

definition prevStep :: "step_closure \<Rightarrow> controller \<Rightarrow> controller" where
  "prevStep k c = goToStep (captured_goToStep k) (captured_currentStep k - 1) c"

text \<open>\<^verbatim>\<open>StepPageContextValue\<close>, with the three functions as closures.\<close>

record StepPageContextValue =
  ctx_currentStep :: int
  ctx_totalSteps :: int
  ctx_goToStep :: controller
  ctx_nextStep :: step_closure
  ctx_prevStep :: step_closure
  canGoNext :: bool
  canGoPrev :: bool

subsection \<open>Memoising hooks\<close>

text \<open>
  \<^verbatim>\<open>useMemo(() => v, deps)\<close> and \<^verbatim>\<open>useCallback(f, deps)\<close>: the hook keeps the
  dependencies and the result of the render that last computed it, and returns the kept
  result unless a dependency differs. The first argument is what the current render would
  compute.
\<close>

definition useMemo :: "'v \<Rightarrow> 'd \<Rightarrow> ('d \<times> 'v) option \<Rightarrow> 'd \<times> 'v" where
  "useMemo v deps cell =
     (case cell of
        None \<Rightarrow> (deps, v)
      | Some (deps', v') \<Rightarrow> if deps' = deps then (deps', v') else (deps, v))"

record hooks =
  cell_goToStep :: "((bool \<times> callback option \<times> int) \<times> controller) option"
  cell_nextStep :: "((int \<times> controller) \<times> step_closure) option"
  cell_prevStep :: "((int \<times> controller) \<times> step_closure) option"
  cell_value ::
    "((int \<times> int \<times> controller \<times> step_closure \<times> step_closure) \<times> StepPageContextValue) option"

definition first_render :: hooks where
  "first_render =
     \<lparr>cell_goToStep = None, cell_nextStep = None, cell_prevStep = None, cell_value = None\<rparr>"

text \<open>
  One render of \<^verbatim>\<open>StepPage\<close>: the hook cells after it and the context value it provides.
\<close>

definition StepPage :: "controller \<Rightarrow> hooks \<Rightarrow> hooks \<times> StepPageContextValue" where
  "StepPage c h =
     (let g = useMemo c (isControlled c, onStepChange c, totalSteps c) (cell_goToStep h);
          n = useMemo \<lparr>captured_currentStep = currentStep c, captured_goToStep = snd g\<rparr>
                (currentStep c, snd g) (cell_nextStep h);
          p = useMemo \<lparr>captured_currentStep = currentStep c, captured_goToStep = snd g\<rparr>
                (currentStep c, snd g) (cell_prevStep h);
          v = useMemo
                \<lparr>ctx_currentStep = currentStep c,
                 ctx_totalSteps = totalSteps c,
                 ctx_goToStep = snd g,
                 ctx_nextStep = snd n,
                 ctx_prevStep = snd p,
                 canGoNext = currentStep c < totalSteps c,
                 canGoPrev = currentStep c > 1\<rparr>
                (currentStep c, totalSteps c, snd g, snd n, snd p) (cell_value h)
      in (\<lparr>cell_goToStep = Some g, cell_nextStep = Some n, cell_prevStep = Some p,
            cell_value = Some v\<rparr>, snd v))"

text \<open>
  The hook cells after the component has rendered in each of the given states in turn,
  and the value of \<^verbatim>\<open>StepPageContext.Provider\<close> in state \<open>c\<close> after those earlier
  renders.
\<close>

fun renders :: "controller list \<Rightarrow> hooks \<Rightarrow> hooks" where
  "renders [] h = h"
| "renders (c # cs) h = renders cs (fst (StepPage c h))"

definition StepPageContext :: "controller list \<Rightarrow> controller \<Rightarrow> StepPageContextValue" where
  "StepPageContext earlier c = snd (StepPage c (renders earlier first_render))"

text \<open>
  \<^verbatim>\<open>useStepPage\<close> reads the context: the value of the nearest provider, or
  \<^verbatim>\<open>undefined\<close> (\<open>None\<close>) outside \<^verbatim>\<open>StepPage\<close>, where it throws. The components
  below are given the value it returns inside \<^verbatim>\<open>StepPage\<close>.
\<close>

datatype error = Error string

definition useStepPage :: "StepPageContextValue option \<Rightarrow> error + StepPageContextValue" where
  "useStepPage context =
     (case context of
        None \<Rightarrow> Inl (Error ''Step components must be used within StepPage'')
      | Some v \<Rightarrow> Inr v)"

subsection \<open>Invariant of the hook cells\<close>

text \<open>
  What a cell holds was computed from the dependencies it holds: a kept \<^verbatim>\<open>goToStep\<close>
  comes from a render with the kept \<^verbatim>\<open>isControlled\<close>, \<^verbatim>\<open>onStepChange\<close> and
  \<^verbatim>\<open>totalSteps\<close>, and so on.
\<close>

definition cell_ok :: "('d \<Rightarrow> 'v \<Rightarrow> bool) \<Rightarrow> ('d \<times> 'v) option \<Rightarrow> bool" where
  "cell_ok P cell = (case cell of None \<Rightarrow> True | Some (d, v) \<Rightarrow> P d v)"

definition goToStep_deps :: "bool \<times> callback option \<times> int \<Rightarrow> controller \<Rightarrow> bool" where
  "goToStep_deps d g \<longleftrightarrow> d = (isControlled g, onStepChange g, totalSteps g)"

definition step_deps :: "int \<times> controller \<Rightarrow> step_closure \<Rightarrow> bool" where
  "step_deps d k \<longleftrightarrow> d = (captured_currentStep k, captured_goToStep k)"

definition value_deps ::
  "int \<times> int \<times> controller \<times> step_closure \<times> step_closure \<Rightarrow> StepPageContextValue \<Rightarrow> bool"
where
  "value_deps d v \<longleftrightarrow>
     d = (ctx_currentStep v, ctx_totalSteps v, ctx_goToStep v, ctx_nextStep v, ctx_prevStep v) \<and>
     canGoNext v = (ctx_currentStep v < ctx_totalSteps v) \<and>
     canGoPrev v = (ctx_currentStep v > 1)"

definition hooks_ok :: "hooks \<Rightarrow> bool" where
  "hooks_ok h \<longleftrightarrow>
     cell_ok goToStep_deps (cell_goToStep h) \<and>
     cell_ok step_deps (cell_nextStep h) \<and>
     cell_ok step_deps (cell_prevStep h) \<and>
     cell_ok value_deps (cell_value h)"

subsection \<open>Sequences of navigation calls\<close>

text \<open>
  A consumer calls one of the three functions it reads from the context. After each call
  the component renders again, so the next call goes through the context of that render.
\<close>

datatype operation = GoToStep int | NextStep | PrevStep

fun perform :: "operation \<Rightarrow> StepPageContextValue \<Rightarrow> controller \<Rightarrow> controller" where
  "perform (GoToStep step) v c = goToStep (ctx_goToStep v) step c"
| "perform NextStep v c = nextStep (ctx_nextStep v) c"
| "perform PrevStep v c = prevStep (ctx_prevStep v) c"

fun navigate :: "operation list \<Rightarrow> controller list \<Rightarrow> controller \<Rightarrow> controller" where
  "navigate [] earlier c = c"
| "navigate (x # xs) earlier c =
     navigate xs (earlier @ [c]) (perform x (StepPageContext earlier c) c)"

text \<open>The bounds \<^verbatim>\<open>1 \<le> currentStep \<le> max(totalSteps, 1)\<close> of the data model.\<close>

definition step_in_range :: "controller \<Rightarrow> bool" where
  "step_in_range c \<longleftrightarrow> 1 \<le> currentStep c \<and> currentStep c \<le> max (totalSteps c) 1"

section \<open>The step list\<close>

datatype icon = Icon nat

record StepItemData =
  title :: string
  description :: "string option"
  icon :: "icon option"

text \<open>
  What \<^verbatim>\<open>StepPages\<close> renders for one entry of \<^verbatim>\<open>steps\<close>: the button with its
  \<^verbatim>\<open>disabled\<close> attribute, the glyph in the circle, and the connector after it
  (\<open>None\<close> after the last entry, otherwise whether it is drawn as passed).
\<close>

datatype glyph = Check | Custom icon | Number int

record indicator =
  stepNumber :: int
  isActive :: bool
  isCompleted :: bool
  isClickable :: bool
  disabled :: bool
  glyph :: glyph
  connector :: "bool option"

definition indicator_of ::
  "StepPageContextValue \<Rightarrow> nat \<Rightarrow> nat \<times> StepItemData \<Rightarrow> indicator"
where
  "indicator_of v len = (\<lambda>(index, step).
     (let stepNumber = int index + 1;
          isActive = (stepNumber = ctx_currentStep v);
          isCompleted = (stepNumber < ctx_currentStep v);
          isClickable = (stepNumber \<le> ctx_currentStep v)
      in \<lparr>stepNumber = stepNumber,
          isActive = isActive,
          isCompleted = isCompleted,
          isClickable = isClickable,
          disabled = (\<not> isClickable),
          glyph = (if isCompleted then Check
                   else case icon step of Some i \<Rightarrow> Custom i | None \<Rightarrow> Number stepNumber),
          connector = (if stepNumber < int len then Some (stepNumber < ctx_currentStep v)
                       else None)\<rparr>))"

definition StepPages :: "StepItemData list \<Rightarrow> StepPageContextValue \<Rightarrow> indicator list" where
  "StepPages steps v = map (indicator_of v (length steps)) (enumerate 0 steps)"

text \<open>\<^verbatim>\<open>onClick={() => isClickable && goToStep(stepNumber)}\<close>\<close>

definition indicator_onClick ::
  "StepPageContextValue \<Rightarrow> indicator \<Rightarrow> controller \<Rightarrow> controller"
where
  "indicator_onClick v i c =
     (if isClickable i then goToStep (ctx_goToStep v) (stepNumber i) c else c)"

text \<open>
  A click on a button runs its handler unless the button is disabled: a disabled
  button element dispatches no click event.
\<close>

definition click :: "bool \<Rightarrow> ('s \<Rightarrow> 's) \<Rightarrow> 's \<Rightarrow> 's" where
  "click is_disabled onClick s = (if is_disabled then s else onClick s)"

definition click_indicator ::
  "StepPageContextValue \<Rightarrow> indicator \<Rightarrow> controller \<Rightarrow> controller"
where
  "click_indicator v i = click (disabled i) (indicator_onClick v i)"

text \<open>
  The effect of \<^verbatim>\<open>StepPages\<close>, with dependencies \<^verbatim>\<open>[steps.length, setTotalSteps]\<close>.
  The setter of a \<^verbatim>\<open>useState\<close> cell never changes, so the effect runs after the first
  render (\<open>None\<close>: no earlier length) and after a render with another length.
  \<^verbatim>\<open>setTotalSteps?.(steps.length)\<close> calls the prop only when it was passed.
\<close>

definition StepPages_effect ::
  "nat option \<Rightarrow> bool \<Rightarrow> StepItemData list \<Rightarrow> controller \<Rightarrow> controller"
where
  "StepPages_effect last_length has_setTotalSteps steps c =
     (if last_length = Some (length steps) then c
      else if has_setTotalSteps then setTotalSteps (int (length steps)) c
      else c)"

section \<open>The content panes\<close>

text \<open>
  \<^verbatim>\<open>StepItem\<close> returns \<^verbatim>\<open>null\<close> (\<open>None\<close>) or a \<^verbatim>\<open>div\<close> around its children
  (\<open>Some\<close> of them).
\<close>

definition StepItem :: "int \<Rightarrow> 'a \<Rightarrow> StepPageContextValue \<Rightarrow> 'a option" where
  "StepItem step children v = (if ctx_currentStep v \<noteq> step then None else Some children)"

text \<open>The output of a list of panes, each declared with its step: the panes that rendered.\<close>

definition panes_output :: "(int \<times> 'a) list \<Rightarrow> StepPageContextValue \<Rightarrow> 'a list" where
  "panes_output panes v = List.map_filter (\<lambda>(step, children). StepItem step children v) panes"

section \<open>The element tree\<close>

text \<open>
  An element as JSX builds it: its component, whether it carries the prop
  \<^verbatim>\<open>setTotalSteps\<close>, and its children. \<open>Text\<close> is a child that is not an element.
\<close>

datatype component =
    HostT string
  | StepPageHeaderT
  | StepPagesT "StepItemData list"
  | StepPageContentT
  | StepItemT int
  | StepPageFooterT

datatype element = Text string | Element component bool "element list"

fun isValidElement :: "element \<Rightarrow> bool" where
  "isValidElement (Text s) = False"
| "isValidElement (Element t has_setTotalSteps children) = True"

text \<open>\<^verbatim>\<open>React.cloneElement(child, { setTotalSteps })\<close>\<close>

fun cloneElement :: "element \<Rightarrow> element" where
  "cloneElement (Element t has_setTotalSteps children) = Element t True children"
| "cloneElement (Text s) = Text s"

text \<open>
  \<^verbatim>\<open>React.Children.map(children, ...)\<close> in \<^verbatim>\<open>StepPage\<close>: it visits the children of
  \<^verbatim>\<open>StepPage\<close> itself, not their descendants.
\<close>

definition StepPage_children :: "element list \<Rightarrow> element list" where
  "StepPage_children children =
     map (\<lambda>child. if isValidElement child then cloneElement child else child) children"

text \<open>
  The effects that run after the first render of a subtree. \<^verbatim>\<open>StepPages\<close> runs its
  effect with the prop it received. \<^verbatim>\<open>StepItem\<close> mounts its children only when it renders
  them. \<^verbatim>\<open>StepPageHeader\<close> and \<^verbatim>\<open>StepPageContent\<close> destructure
  \<^verbatim>\<open>{ children, className }\<close> and render the children as they are; the footer renders
  the children it was given; a host element renders its children.
\<close>

fun mount_effects :: "StepPageContextValue \<Rightarrow> element \<Rightarrow> controller \<Rightarrow> controller" where
  "mount_effects v (Text s) c = c"
| "mount_effects v (Element (StepPagesT steps) has_setTotalSteps children) c =
     StepPages_effect None has_setTotalSteps steps c"
| "mount_effects v (Element (StepItemT step) has_setTotalSteps children) c =
     (if StepItem step children v = None then c else fold (mount_effects v) children c)"
| "mount_effects v (Element (HostT name) has_setTotalSteps children) c =
     fold (mount_effects v) children c"
| "mount_effects v (Element StepPageHeaderT has_setTotalSteps children) c =
     fold (mount_effects v) children c"
| "mount_effects v (Element StepPageContentT has_setTotalSteps children) c =
     fold (mount_effects v) children c"
| "mount_effects v (Element StepPageFooterT has_setTotalSteps children) c =
     fold (mount_effects v) children c"

text \<open>Mounting \<^verbatim>\<open><StepPage {...p}>{children}</StepPage>\<close>.\<close>

definition mount :: "StepPageProps \<Rightarrow> element list \<Rightarrow> controller" where
  "mount p children =
     (let c = StepPage_mount p
      in fold (mount_effects (StepPageContext [] c)) (StepPage_children children) c)"

section \<open>The footer\<close>

text \<open>
  \<^verbatim>\<open>StepPageFooterProps\<close>; \<open>footer_children\<close> says whether children were passed.
\<close>

record StepPageFooterProps =
  footer_children :: bool
  showDefaultActions :: "bool option"
  nextLabel :: "string option"
  prevLabel :: "string option"
  onNext :: "callback option"
  onPrev :: "callback option"

record default_actions =
  prev_disabled :: bool
  prev_text :: string
  position :: "int \<times> int"
  next_disabled :: bool
  next_text :: string

datatype footer_output = Children | DefaultActions default_actions | Nothing

definition StepPageFooter ::
  "StepPageFooterProps \<Rightarrow> StepPageContextValue \<Rightarrow> bool \<Rightarrow> footer_output"
where
  "StepPageFooter props v isLoading =
     (let isLastStep = (ctx_currentStep v = ctx_totalSteps v)
      in if footer_children props then Children
         else if (case showDefaultActions props of None \<Rightarrow> True | Some b \<Rightarrow> b) then
           DefaultActions
             \<lparr>prev_disabled = (\<not> canGoPrev v \<or> isLoading),
              prev_text = (case prevLabel props of None \<Rightarrow> ''Previous'' | Some l \<Rightarrow> l),
              position = (ctx_currentStep v, ctx_totalSteps v),
              next_disabled = (\<not> canGoNext v \<or> isLoading),
              next_text = (if isLastStep then ''Finish''
                           else case nextLabel props of None \<Rightarrow> ''Next'' | Some l \<Rightarrow> l)\<rparr>
         else Nothing)"

text \<open>
  The footer with the component it navigates: the \<^verbatim>\<open>isLoading\<close> cell, the calls of
  \<^verbatim>\<open>handleNext\<close> and \<^verbatim>\<open>handlePrev\<close> suspended at their \<^verbatim>\<open>await\<close> (each holds the
  \<^verbatim>\<open>nextStep\<close> or \<^verbatim>\<open>prevStep\<close> of the render that created the handler), and how the
  promises returned by finished calls settled (\<open>Inl\<close>: rejected with that error).
\<close>

datatype 'e settled = Fulfilled | Rejected 'e

datatype suspended = AwaitingOnNext step_closure | AwaitingOnPrev step_closure

record 'e footer =
  ctrl :: controller
  isLoading :: bool
  suspended :: "suspended list"
  results :: "('e + unit) list"

text \<open>The \<^verbatim>\<open>finally\<close> block, after which the promise of the handler settles.\<close>

definition finish :: "'e + unit \<Rightarrow> 'e footer \<Rightarrow> 'e footer" where
  "finish r s = s\<lparr>isLoading := False, results := results s @ [r]\<rparr>"

text \<open>
  \<^verbatim>\<open>handleNext\<close> from the point where the awaited hook has settled: a rejection leaves
  the \<^verbatim>\<open>try\<close> block before \<^verbatim>\<open>nextStep()\<close>.
\<close>

definition handleNext_resume :: "'e settled \<Rightarrow> step_closure \<Rightarrow> 'e footer \<Rightarrow> 'e footer" where
  "handleNext_resume outcome nextStep_captured s =
     (case outcome of
        Fulfilled \<Rightarrow> finish (Inr ()) (s\<lparr>ctrl := nextStep nextStep_captured (ctrl s)\<rparr>)
      | Rejected e \<Rightarrow> finish (Inl e) s)"

definition handlePrev_resume :: "'e settled \<Rightarrow> step_closure \<Rightarrow> 'e footer \<Rightarrow> 'e footer" where
  "handlePrev_resume outcome prevStep_captured s =
     (case outcome of
        Fulfilled \<Rightarrow> finish (Inr ()) (s\<lparr>ctrl := prevStep prevStep_captured (ctrl s)\<rparr>)
      | Rejected e \<Rightarrow> finish (Inl e) s)"

text \<open>
  \<^verbatim>\<open>handleNext\<close> up to its \<^verbatim>\<open>await\<close>. Without a hook \<^verbatim>\<open>onNext?.()\<close> is
  \<^verbatim>\<open>undefined\<close> and the call goes on as after a fulfilled hook.
\<close>

definition handleNext ::
  "StepPageFooterProps \<Rightarrow> StepPageContextValue \<Rightarrow> 'e footer \<Rightarrow> 'e footer"
where
  "handleNext props v s =
     (let s1 = s\<lparr>isLoading := True\<rparr>
      in case onNext props of
           None \<Rightarrow> handleNext_resume Fulfilled (ctx_nextStep v) s1
         | Some hook \<Rightarrow>
             s1\<lparr>ctrl := invoke hook [] (ctrl s1),
                suspended := suspended s1 @ [AwaitingOnNext (ctx_nextStep v)]\<rparr>)"

definition handlePrev ::
  "StepPageFooterProps \<Rightarrow> StepPageContextValue \<Rightarrow> 'e footer \<Rightarrow> 'e footer"
where
  "handlePrev props v s =
     (let s1 = s\<lparr>isLoading := True\<rparr>
      in case onPrev props of
           None \<Rightarrow> handlePrev_resume Fulfilled (ctx_prevStep v) s1
         | Some hook \<Rightarrow>
             s1\<lparr>ctrl := invoke hook [] (ctrl s1),
                suspended := suspended s1 @ [AwaitingOnPrev (ctx_prevStep v)]\<rparr>)"

text \<open>The hook awaited by the \<open>k\<close>-th suspended call settles.\<close>

definition settle :: "nat \<Rightarrow> 'e settled \<Rightarrow> 'e footer \<Rightarrow> 'e footer" where
  "settle k outcome s =
     (if k < length (suspended s) then
        (let s' = s\<lparr>suspended := take k (suspended s) @ drop (Suc k) (suspended s)\<rparr>
         in case suspended s ! k of
              AwaitingOnNext f \<Rightarrow> handleNext_resume outcome f s'
            | AwaitingOnPrev f \<Rightarrow> handlePrev_resume outcome f s')
      else s)"

text \<open>
  Modelled from the spec: the \<^verbatim>\<open>Button\<close> widget (imported from
  \<^verbatim>\<open>@/components/ui/button\<close>, not among the sources). The spec has the buttons
  disabled while navigating so that re-entrant clicks are ignored: a disabled
  \<^verbatim>\<open>Button\<close> does not run its \<^verbatim>\<open>onClick\<close>, an enabled one runs it.
\<close>

definition Button_click :: "bool \<Rightarrow> ('s \<Rightarrow> 's) \<Rightarrow> 's \<Rightarrow> 's" where
  "Button_click is_disabled onClick s = (if is_disabled then s else onClick s)"

text \<open>A click where the default Next or Previous button is, if the footer renders it.\<close>

definition click_next ::
  "StepPageFooterProps \<Rightarrow> StepPageContextValue \<Rightarrow> 'e footer \<Rightarrow> 'e footer"
where
  "click_next props v s =
     (case StepPageFooter props v (isLoading s) of
        DefaultActions a \<Rightarrow> Button_click (next_disabled a) (handleNext props v) s
      | Children \<Rightarrow> s
      | Nothing \<Rightarrow> s)"

definition click_prev ::
  "StepPageFooterProps \<Rightarrow> StepPageContextValue \<Rightarrow> 'e footer \<Rightarrow> 'e footer"
where
  "click_prev props v s =
     (case StepPageFooter props v (isLoading s) of
        DefaultActions a \<Rightarrow> Button_click (prev_disabled a) (handlePrev props v) s
      | Children \<Rightarrow> s
      | Nothing \<Rightarrow> s)"

section \<open>Examples\<close>

text \<open>
  States, step lists, panes and footers at which the properties below are evaluated:
  a wizard of three or four steps, controlled or not, the first usage example of
  \<^verbatim>\<open>step-page.example.tsx\<close> as an element tree, and a footer with and without hooks.
\<close>

definition controlled_without_onStepChange :: controller where
  "controlled_without_onStepChange =
     \<lparr>controlledStep = Some 1, onStepChange = None, internalStep = 1, totalSteps = 3, invoked = []\<rparr>"

definition uncontrolled_at_1_of_3 :: controller where
  "uncontrolled_at_1_of_3 =
     \<lparr>controlledStep = None, onStepChange = None, internalStep = 1, totalSteps = 3, invoked = []\<rparr>"

definition controlled_at_1_of_3 :: controller where
  "controlled_at_1_of_3 =
     \<lparr>controlledStep = Some 1, onStepChange = Some (Callback 0), internalStep = 1,
      totalSteps = 3, invoked = []\<rparr>"

definition steps_ABC :: "StepItemData list" where
  "steps_ABC =
     [\<lparr>title = ''A'', description = None, icon = None\<rparr>,
      \<lparr>title = ''B'', description = None, icon = None\<rparr>,
      \<lparr>title = ''C'', description = None, icon = None\<rparr>]"

definition default_7_of_3 :: controller where
  "default_7_of_3 =
     StepPages_effect None True steps_ABC
       (StepPage_mount \<lparr>defaultStep = Some 7, currentStep_prop = None, onStepChange_prop = None\<rparr>)"

definition steps_ABCD :: "StepItemData list" where
  "steps_ABCD =
     [\<lparr>title = ''A'', description = None, icon = None\<rparr>,
      \<lparr>title = ''B'', description = None, icon = None\<rparr>,
      \<lparr>title = ''C'', description = None, icon = None\<rparr>,
      \<lparr>title = ''D'', description = None, icon = None\<rparr>]"

definition uncontrolled_at_2_of_4 :: controller where
  "uncontrolled_at_2_of_4 =
     \<lparr>controlledStep = None, onStepChange = None, internalStep = 2, totalSteps = 4, invoked = []\<rparr>"

definition panes_123 :: "(int \<times> string) list" where
  "panes_123 = [(1, ''one''), (2, ''two''), (3, ''three'')]"

definition BasicStepPageExample :: "element list" where
  "BasicStepPageExample =
     [Element StepPageHeaderT False
        [Element (StepPagesT
           [\<lparr>title = ''Personal Info'', description = Some ''Basic details'', icon = None\<rparr>,
            \<lparr>title = ''Contact'', description = Some ''Email and phone'', icon = None\<rparr>,
            \<lparr>title = ''Review'', description = Some ''Confirm details'', icon = None\<rparr>])
           False []],
      Element StepPageContentT False
        [Element (StepItemT 1) False [Element (HostT ''div'') False [Text ''Personal Information'']],
         Element (StepItemT 2) False [Element (HostT ''div'') False [Text ''Contact Information'']],
         Element (StepItemT 3) False [Element (HostT ''div'') False [Text ''Review & Submit'']]],
      Element StepPageFooterT False []]"

definition no_props :: StepPageProps where
  "no_props = \<lparr>defaultStep = None, currentStep_prop = None, onStepChange_prop = None\<rparr>"

definition footer_with_hooks :: StepPageFooterProps where
  "footer_with_hooks =
     \<lparr>footer_children = False, showDefaultActions = None, nextLabel = None, prevLabel = None,
      onNext = Some (Callback 1), onPrev = Some (Callback 2)\<rparr>"

definition footer_plain :: StepPageFooterProps where
  "footer_plain =
     \<lparr>footer_children = False, showDefaultActions = None, nextLabel = None, prevLabel = None,
      onNext = None, onPrev = None\<rparr>"

definition idle_at_1_of_3 :: "string footer" where
  "idle_at_1_of_3 =
     \<lparr>ctrl = uncontrolled_at_1_of_3, isLoading = False, suspended = [], results = []\<rparr>"

definition awaiting_at_1_of_3 :: "string footer" where
  "awaiting_at_1_of_3 =
     handleNext footer_with_hooks (StepPageContext [] uncontrolled_at_1_of_3) idle_at_1_of_3"

definition loading_at_1_of_3 :: "string footer" where
  "loading_at_1_of_3 =
     click_next footer_with_hooks (StepPageContext [] (ctrl idle_at_1_of_3)) idle_at_1_of_3"

definition buttons_while_loading :: default_actions where
  "buttons_while_loading =
     \<lparr>prev_disabled = True, prev_text = ''Previous'', position = (1, 3),
      next_disabled = True, next_text = ''Next''\<rparr>"

section \<open>The hook cells never hold a stale result\<close>

lemma cell_ok_useMemo:
  "cell_ok P cell \<Longrightarrow> P deps v \<Longrightarrow> cell_ok P (Some (useMemo v deps cell))"
  by (auto simp: cell_ok_def useMemo_def split: option.splits)

lemma snd_useMemo_ok:
  "cell_ok P cell \<Longrightarrow> P deps v \<Longrightarrow> P deps (snd (useMemo v deps cell))"
  by (auto simp: cell_ok_def useMemo_def split: option.splits)

lemma hooks_ok_first_render: "hooks_ok first_render"
  by (simp add: hooks_ok_def first_render_def cell_ok_def)

lemma hooks_ok_StepPage:
  assumes "hooks_ok h"
  shows "hooks_ok (fst (StepPage c h))"
proof -
  have g: "cell_ok goToStep_deps (cell_goToStep h)"
    and n: "cell_ok step_deps (cell_nextStep h)"
    and p: "cell_ok step_deps (cell_prevStep h)"
    and v: "cell_ok value_deps (cell_value h)"
    using assms by (simp_all add: hooks_ok_def)
  show ?thesis
    unfolding hooks_ok_def StepPage_def Let_def fst_conv hooks.simps
    by (intro conjI cell_ok_useMemo g n p v) (simp_all add: goToStep_deps_def step_deps_def value_deps_def)
qed

lemma hooks_ok_renders: "hooks_ok h \<Longrightarrow> hooks_ok (renders cs h)"
  by (induction cs arbitrary: h) (simp_all add: hooks_ok_StepPage)

text \<open>
  Whatever renders came before, the context value of a render is the one that render
  would compute afresh, up to the render its \<^verbatim>\<open>goToStep\<close> was created in, which agrees
  with the current one on everything \<^verbatim>\<open>goToStep\<close> reads.
\<close>

lemma StepPage_value:
  fixes c :: controller and h :: hooks
  assumes "hooks_ok h"
  defines "v \<equiv> snd (StepPage c h)"
  shows "ctx_currentStep v = currentStep c"
    and "ctx_totalSteps v = totalSteps c"
    and "canGoNext v = (currentStep c < totalSteps c)"
    and "canGoPrev v = (currentStep c > 1)"
    and "isControlled (ctx_goToStep v) = isControlled c"
    and "onStepChange (ctx_goToStep v) = onStepChange c"
    and "totalSteps (ctx_goToStep v) = totalSteps c"
    and "ctx_nextStep v = \<lparr>captured_currentStep = currentStep c, captured_goToStep = ctx_goToStep v\<rparr>"
    and "ctx_prevStep v = \<lparr>captured_currentStep = currentStep c, captured_goToStep = ctx_goToStep v\<rparr>"
proof -
  define g where "g = snd (useMemo c (isControlled c, onStepChange c, totalSteps c) (cell_goToStep h))"
  define n where "n = snd (useMemo \<lparr>captured_currentStep = currentStep c, captured_goToStep = g\<rparr>
                (currentStep c, g) (cell_nextStep h))"
  define p where "p = snd (useMemo \<lparr>captured_currentStep = currentStep c, captured_goToStep = g\<rparr>
                (currentStep c, g) (cell_prevStep h))"
  have v: "v = snd (useMemo
                \<lparr>ctx_currentStep = currentStep c,
                 ctx_totalSteps = totalSteps c,
                 ctx_goToStep = g,
                 ctx_nextStep = n,
                 ctx_prevStep = p,
                 canGoNext = currentStep c < totalSteps c,
                 canGoPrev = currentStep c > 1\<rparr>
                (currentStep c, totalSteps c, g, n, p) (cell_value h))"
    unfolding v_def StepPage_def Let_def g_def n_def p_def snd_conv ..
  have "goToStep_deps (isControlled c, onStepChange c, totalSteps c) g"
    unfolding g_def using assms(1)
    by (intro snd_useMemo_ok [where P = goToStep_deps]) (simp_all add: hooks_ok_def goToStep_deps_def)
  then have G: "isControlled g = isControlled c" "onStepChange g = onStepChange c"
      "totalSteps g = totalSteps c"
    by (simp_all add: goToStep_deps_def)
  have "step_deps (currentStep c, g) n"
    unfolding n_def using assms(1)
    by (intro snd_useMemo_ok [where P = step_deps]) (simp_all add: hooks_ok_def step_deps_def)
  then have N: "n = \<lparr>captured_currentStep = currentStep c, captured_goToStep = g\<rparr>"
    by (simp add: step_deps_def)
  have "step_deps (currentStep c, g) p"
    unfolding p_def using assms(1)
    by (intro snd_useMemo_ok [where P = step_deps]) (simp_all add: hooks_ok_def step_deps_def)
  then have P: "p = \<lparr>captured_currentStep = currentStep c, captured_goToStep = g\<rparr>"
    by (simp add: step_deps_def)
  have "value_deps (currentStep c, totalSteps c, g, n, p) v"
    unfolding v using assms(1)
    by (intro snd_useMemo_ok [where P = value_deps]) (simp_all add: hooks_ok_def value_deps_def)
  then have V: "ctx_currentStep v = currentStep c" "ctx_totalSteps v = totalSteps c"
    "ctx_goToStep v = g" "ctx_nextStep v = n" "ctx_prevStep v = p"
    "canGoNext v = (ctx_currentStep v < ctx_totalSteps v)"
    "canGoPrev v = (ctx_currentStep v > 1)"
    by (simp_all add: value_deps_def)
  show "ctx_currentStep v = currentStep c" "ctx_totalSteps v = totalSteps c"
    "canGoNext v = (currentStep c < totalSteps c)" "canGoPrev v = (currentStep c > 1)"
    "isControlled (ctx_goToStep v) = isControlled c"
    "onStepChange (ctx_goToStep v) = onStepChange c"
    "totalSteps (ctx_goToStep v) = totalSteps c"
    "ctx_nextStep v = \<lparr>captured_currentStep = currentStep c, captured_goToStep = ctx_goToStep v\<rparr>"
    "ctx_prevStep v = \<lparr>captured_currentStep = currentStep c, captured_goToStep = ctx_goToStep v\<rparr>"
    using V G N P by simp_all
qed

lemmas StepPageContext_value =
  StepPage_value [OF hooks_ok_renders [OF hooks_ok_first_render], folded StepPageContext_def]

lemma goToStep_same_deps:
  "isControlled r = isControlled r' \<Longrightarrow> onStepChange r = onStepChange r' \<Longrightarrow>
   totalSteps r = totalSteps r' \<Longrightarrow> goToStep r = goToStep r'"
  by (intro ext) (simp add: goToStep_def)

lemma ctx_goToStep_fresh: "goToStep (ctx_goToStep (StepPageContext earlier c)) = goToStep c"
  by (rule goToStep_same_deps) (simp_all add: StepPageContext_value)

lemma ctx_nextStep_fresh:
  "nextStep (ctx_nextStep (StepPageContext earlier c)) = goToStep c (currentStep c + 1)"
  by (intro ext) (simp add: nextStep_def StepPageContext_value ctx_goToStep_fresh)

lemma ctx_prevStep_fresh:
  "prevStep (ctx_prevStep (StepPageContext earlier c)) = goToStep c (currentStep c - 1)"
  by (intro ext) (simp add: prevStep_def StepPageContext_value ctx_goToStep_fresh)

lemma useStepPage_inside:
  "useStepPage (Some (StepPageContext earlier c)) = Inr (StepPageContext earlier c)"
  by (simp add: useStepPage_def)

lemma useStepPage_outside:
  "useStepPage None = Inl (Error ''Step components must be used within StepPage'')"
  by (simp add: useStepPage_def)

section \<open>Navigation through the context\<close>

text \<open>
  Claim C8. In every state of the component, and whatever renders came before, the context
  value a consumer reads has \<^verbatim>\<open>canGoNext\<close> exactly when \<^verbatim>\<open>currentStep < totalSteps\<close>
  and \<^verbatim>\<open>canGoPrev\<close> exactly when \<^verbatim>\<open>currentStep > 1\<close>, both of the current state: the
  memoised value is never stale.
\<close>

theorem canGo_derived_from_current_state:
  "canGoNext (StepPageContext earlier c) = (currentStep c < totalSteps c) \<and>
   canGoPrev (StepPageContext earlier c) = (currentStep c > 1)"
  by (simp add: StepPageContext_value)

text \<open>
  Claim C9. In every state of the component, the \<^verbatim>\<open>nextStep\<close> and \<^verbatim>\<open>prevStep\<close> a
  consumer reads from the context do, whenever they are called, what the
  \<^verbatim>\<open>goToStep\<close> of the same context does with \<^verbatim>\<open>currentStep + 1\<close> and
  \<^verbatim>\<open>currentStep - 1\<close>, where \<^verbatim>\<open>currentStep\<close> is the one the context shows.
\<close>

theorem nextStep_prevStep_are_goToStep:
  "nextStep (ctx_nextStep (StepPageContext earlier c)) c' =
     goToStep (ctx_goToStep (StepPageContext earlier c)) (currentStep c + 1) c' \<and>
   prevStep (ctx_prevStep (StepPageContext earlier c)) c' =
     goToStep (ctx_goToStep (StepPageContext earlier c)) (currentStep c - 1) c' \<and>
   ctx_currentStep (StepPageContext earlier c) = currentStep c"
  by (simp add: ctx_nextStep_fresh ctx_prevStep_fresh ctx_goToStep_fresh StepPageContext_value(1))

text \<open>
  Claim C10. Without a \<^verbatim>\<open>currentStep\<close> prop the component starts at the given
  \<^verbatim>\<open>defaultStep\<close>, whatever integer it is, and a registration of any step count leaves
  it there: the value is never clamped to the range of the steps, and it is the
  \<^verbatim>\<open>currentStep\<close> consumers read.
\<close>

theorem defaultStep_not_clamped:
  "currentStep (StepPage_mount \<lparr>defaultStep = Some d, currentStep_prop = None, onStepChange_prop = cb\<rparr>) = d \<and>
   ctx_currentStep (StepPageContext []
      (StepPage_mount \<lparr>defaultStep = Some d, currentStep_prop = None, onStepChange_prop = cb\<rparr>)) = d \<and>
   currentStep (setTotalSteps n
      (StepPage_mount \<lparr>defaultStep = Some d, currentStep_prop = None, onStepChange_prop = cb\<rparr>)) = d \<and>
   ctx_currentStep (StepPageContext earlier (setTotalSteps n
      (StepPage_mount \<lparr>defaultStep = Some d, currentStep_prop = None, onStepChange_prop = cb\<rparr>))) = d"
  by (simp add: StepPageContext_value currentStep_def StepPage_mount_def setTotalSteps_def)

text \<open>
  Claim C1, amended. \<^verbatim>\<open>goToStep(target)\<close> read from the context changes nothing when
  \<^verbatim>\<open>target < 1\<close> or \<^verbatim>\<open>target > totalSteps\<close>. For a target in range: with a
  \<^verbatim>\<open>currentStep\<close> prop it calls \<^verbatim>\<open>onStepChange\<close> with the target exactly once if that
  prop was passed, does nothing if it was not, and either way leaves the state cells as they
  are; without a \<^verbatim>\<open>currentStep\<close> prop it sets the internal step, calls nothing, and
  \<^verbatim>\<open>currentStep\<close> is the target.
\<close>

theorem goToStep_contract:
  fixes earlier c t
  defines "c' \<equiv> goToStep (ctx_goToStep (StepPageContext earlier c)) t c"
  shows "(t < 1 \<or> t > totalSteps c \<longrightarrow> c' = c) \<and>
         (1 \<le> t \<and> t \<le> totalSteps c \<and> isControlled c \<longrightarrow>
            (case onStepChange c of
               Some cb \<Rightarrow> c' = c\<lparr>invoked := invoked c @ [(cb, [t])]\<rparr>
             | None \<Rightarrow> c' = c)) \<and>
         (1 \<le> t \<and> t \<le> totalSteps c \<and> \<not> isControlled c \<longrightarrow>
            c' = c\<lparr>internalStep := t\<rparr> \<and> currentStep c' = t)"
  unfolding c'_def ctx_goToStep_fresh
  by (auto simp: goToStep_def invoke_def setInternalStep_def currentStep_def isControlled_def
           split: option.splits)

text \<open>
  Claim C1 as stated fails for a controlled component that was given no
  \<^verbatim>\<open>onStepChange\<close>: for a target in range no function is called.
\<close>

theorem goToStep_counterexample:
  "isControlled controlled_without_onStepChange \<and>
   1 \<le> (2::int) \<and> 2 \<le> totalSteps controlled_without_onStepChange \<and>
   invoked (goToStep (ctx_goToStep (StepPageContext [] controlled_without_onStepChange)) 2
              controlled_without_onStepChange) = []"
  by (simp add: controlled_without_onStepChange_def isControlled_def StepPageContext_def StepPage_def
        first_render_def useMemo_def goToStep_def Let_def)

text \<open>
  The amended claim C1 at three calls: a target out of range, a target in range on a
  controlled component with \<^verbatim>\<open>onStepChange\<close>, and a target in range on an uncontrolled
  one.
\<close>

theorem goToStep_contract_witness:
  "((5::int) < 1 \<or> 5 > totalSteps uncontrolled_at_1_of_3) \<and>
   goToStep (ctx_goToStep (StepPageContext [] uncontrolled_at_1_of_3)) 5 uncontrolled_at_1_of_3
     = uncontrolled_at_1_of_3 \<and>
   (1 \<le> (2::int) \<and> 2 \<le> totalSteps controlled_at_1_of_3 \<and> isControlled controlled_at_1_of_3) \<and>
   goToStep (ctx_goToStep (StepPageContext [] controlled_at_1_of_3)) 2 controlled_at_1_of_3
     = controlled_at_1_of_3\<lparr>invoked := [(Callback 0, [2])]\<rparr> \<and>
   (1 \<le> (2::int) \<and> 2 \<le> totalSteps uncontrolled_at_1_of_3 \<and> \<not> isControlled uncontrolled_at_1_of_3) \<and>
   currentStep (goToStep (ctx_goToStep (StepPageContext [] uncontrolled_at_1_of_3)) 2
                  uncontrolled_at_1_of_3) = 2"
proof -
  have h1: "(5::int) < 1 \<or> 5 > totalSteps uncontrolled_at_1_of_3"
    by (simp add: uncontrolled_at_1_of_3_def)
  have h2: "1 \<le> (2::int) \<and> 2 \<le> totalSteps controlled_at_1_of_3 \<and> isControlled controlled_at_1_of_3"
    by (simp add: controlled_at_1_of_3_def isControlled_def)
  have h3: "1 \<le> (2::int) \<and> 2 \<le> totalSteps uncontrolled_at_1_of_3 \<and> \<not> isControlled uncontrolled_at_1_of_3"
    by (simp add: uncontrolled_at_1_of_3_def isControlled_def)
  have cb: "onStepChange controlled_at_1_of_3 = Some (Callback 0)"
    "invoked controlled_at_1_of_3 = []"
    by (simp_all add: controlled_at_1_of_3_def)
  from goToStep_contract [of 5 uncontrolled_at_1_of_3 "[]"] h1
  have c1: "goToStep (ctx_goToStep (StepPageContext [] uncontrolled_at_1_of_3)) 5 uncontrolled_at_1_of_3
     = uncontrolled_at_1_of_3" by blast
  from goToStep_contract [of 2 controlled_at_1_of_3 "[]"] h2 cb
  have c2: "goToStep (ctx_goToStep (StepPageContext [] controlled_at_1_of_3)) 2 controlled_at_1_of_3
     = controlled_at_1_of_3\<lparr>invoked := [(Callback 0, [2])]\<rparr>" by simp
  from goToStep_contract [of 2 uncontrolled_at_1_of_3 "[]"] h3
  have c3: "currentStep (goToStep (ctx_goToStep (StepPageContext [] uncontrolled_at_1_of_3)) 2
                  uncontrolled_at_1_of_3) = 2" by blast
  from h1 h2 h3 c1 c2 c3 show ?thesis by blast
qed

lemma currentStep_invoke [simp]: "currentStep (invoke cb args c) = currentStep c"
  by (simp add: currentStep_def invoke_def split: option.splits)

lemma totalSteps_invoke [simp]: "totalSteps (invoke cb args c) = totalSteps c"
  by (simp add: invoke_def)

lemma step_in_range_goToStep:
  assumes "step_in_range c"
  shows "step_in_range (goToStep c t c)"
proof (cases "t < 1 \<or> t > totalSteps c")
  case True
  then show ?thesis using assms by (simp add: goToStep_def)
next
  case valid: False
  show ?thesis
  proof (cases "isControlled c")
    case True
    then show ?thesis using assms valid
      by (simp add: goToStep_def step_in_range_def split: option.splits)
  next
    case False
    then have "currentStep (setInternalStep t c) = t"
      by (simp add: currentStep_def setInternalStep_def isControlled_def)
    moreover have "totalSteps (setInternalStep t c) = totalSteps c"
      by (simp add: setInternalStep_def)
    ultimately show ?thesis using False valid
      by (simp add: goToStep_def step_in_range_def)
  qed
qed

lemma step_in_range_perform:
  "step_in_range c \<Longrightarrow> step_in_range (perform x (StepPageContext earlier c) c)"
  by (cases x)
     (simp_all add: ctx_goToStep_fresh ctx_nextStep_fresh ctx_prevStep_fresh step_in_range_goToStep)

lemma step_in_range_navigate:
  "step_in_range c \<Longrightarrow> step_in_range (navigate xs earlier c)"
  by (induction xs arbitrary: earlier c) (simp_all add: step_in_range_perform)

lemma step_in_range_registered:
  assumes "case dflt of None \<Rightarrow> True | Some d \<Rightarrow> 1 \<le> d \<and> d \<le> max (int (length steps)) 1"
  shows "step_in_range (StepPages_effect None True steps
           (StepPage_mount \<lparr>defaultStep = dflt, currentStep_prop = None, onStepChange_prop = cb\<rparr>))"
  using assms
  by (auto simp: step_in_range_def StepPages_effect_def StepPage_mount_def setTotalSteps_def
        currentStep_def split: option.splits)

text \<open>
  Claim C2, amended. Calls of \<^verbatim>\<open>goToStep\<close>, \<^verbatim>\<open>nextStep\<close> and \<^verbatim>\<open>prevStep\<close>,
  in any number and order, keep \<^verbatim>\<open>1 \<le> currentStep \<le> max(totalSteps, 1)\<close> once it
  holds. It holds, and so keeps holding under such calls, after the step list has been
  registered with an uncontrolled component whose \<^verbatim>\<open>defaultStep\<close> is absent or lies
  between 1 and the larger of the step count and 1.
\<close>

theorem navigation_keeps_step_in_range:
  "(step_in_range c \<longrightarrow> step_in_range (navigate xs earlier c)) \<and>
   ((case dflt of None \<Rightarrow> True | Some d \<Rightarrow> 1 \<le> d \<and> d \<le> max (int (length steps)) 1) \<longrightarrow>
      step_in_range (navigate xs earlier (StepPages_effect None True steps
        (StepPage_mount \<lparr>defaultStep = dflt, currentStep_prop = None, onStepChange_prop = cb\<rparr>))))"
proof (intro conjI impI)
  assume "step_in_range c"
  then show "step_in_range (navigate xs earlier c)"
    by (rule step_in_range_navigate)
next
  assume "case dflt of None \<Rightarrow> True | Some d \<Rightarrow> 1 \<le> d \<and> d \<le> max (int (length steps)) 1"
  then have "step_in_range (StepPages_effect None True steps
        (StepPage_mount \<lparr>defaultStep = dflt, currentStep_prop = None, onStepChange_prop = cb\<rparr>))"
    by (rule step_in_range_registered)
  then show "step_in_range (navigate xs earlier (StepPages_effect None True steps
        (StepPage_mount \<lparr>defaultStep = dflt, currentStep_prop = None, onStepChange_prop = cb\<rparr>)))"
    by (rule step_in_range_navigate)
qed

text \<open>
  Claim C2 as stated fails for \<^verbatim>\<open>defaultStep = 7\<close> with three steps registered: the
  state is reachable, \<^verbatim>\<open>totalSteps\<close> is known, and \<^verbatim>\<open>currentStep\<close> is 7.
\<close>

theorem step_in_range_counterexample:
  "totalSteps default_7_of_3 = 3 \<and> currentStep default_7_of_3 = 7 \<and>
   \<not> step_in_range default_7_of_3"
  by (simp add: default_7_of_3_def steps_ABC_def StepPages_effect_def StepPage_mount_def
        setTotalSteps_def currentStep_def step_in_range_def)

text \<open>
  The amended claim C2 on the sequence of the end-to-end scenario, extended by a jump to
  the last step, and on three steps registered with \<^verbatim>\<open>defaultStep = 2\<close>.
\<close>

theorem navigation_keeps_step_in_range_witness:
  "step_in_range uncontrolled_at_1_of_3 \<and>
   step_in_range (navigate [NextStep, GoToStep 5, PrevStep, GoToStep 3] [] uncontrolled_at_1_of_3) \<and>
   (case Some (2::int) of None \<Rightarrow> True | Some d \<Rightarrow> 1 \<le> d \<and> d \<le> max (int (length steps_ABC)) 1) \<and>
   step_in_range (navigate [NextStep, NextStep, NextStep] [] (StepPages_effect None True steps_ABC
        (StepPage_mount \<lparr>defaultStep = Some 2, currentStep_prop = None, onStepChange_prop = None\<rparr>)))"
proof -
  have h1: "step_in_range uncontrolled_at_1_of_3"
    by (simp add: step_in_range_def uncontrolled_at_1_of_3_def currentStep_def)
  have h2: "case Some (2::int) of None \<Rightarrow> True | Some d \<Rightarrow> 1 \<le> d \<and> d \<le> max (int (length steps_ABC)) 1"
    by (simp add: steps_ABC_def)
  from navigation_keeps_step_in_range
         [where c = uncontrolled_at_1_of_3 and xs = "[NextStep, GoToStep 5, PrevStep, GoToStep 3]"
            and earlier = "[]"] h1
  have c1: "step_in_range (navigate [NextStep, GoToStep 5, PrevStep, GoToStep 3] [] uncontrolled_at_1_of_3)"
    by blast
  from navigation_keeps_step_in_range
         [where xs = "[NextStep, NextStep, NextStep]" and earlier = "[]" and dflt = "Some 2"
            and steps = steps_ABC and cb = None] h2
  have c2: "step_in_range (navigate [NextStep, NextStep, NextStep] [] (StepPages_effect None True steps_ABC
        (StepPage_mount \<lparr>defaultStep = Some 2, currentStep_prop = None, onStepChange_prop = None\<rparr>)))"
    by blast
  from h1 h2 c1 c2 show ?thesis by blast
qed

section \<open>Indicators and registration\<close>

lemma StepPages_nth:
  assumes "index < length steps"
  shows "StepPages steps v ! index = indicator_of v (length steps) (index, steps ! index)"
  using assms by (simp add: StepPages_def nth_enumerate_eq)

text \<open>
  Claim C7. For every position of the rendered list, numbered from 1: the indicator is
  completed exactly when its number is below \<^verbatim>\<open>currentStep\<close>, active exactly when it
  equals it, clickable exactly when it is at most it, and disabled exactly when it is not
  clickable. A click on a clickable indicator is the call of \<^verbatim>\<open>goToStep\<close> with its
  number; a click on one that is not clickable, and even a call of its handler, changes
  nothing.
\<close>

theorem indicator_status_and_click:
  fixes steps :: "StepItemData list" and earlier :: "controller list" and c :: controller
    and index :: nat
  defines "v \<equiv> StepPageContext earlier c"
  defines "ind \<equiv> StepPages steps v ! index"
  defines "i \<equiv> int index + 1"
  assumes "index < length steps"
  shows "length (StepPages steps v) = length steps \<and>
         stepNumber ind = i \<and>
         isCompleted ind = (i < currentStep c) \<and>
         isActive ind = (i = currentStep c) \<and>
         isClickable ind = (i \<le> currentStep c) \<and>
         disabled ind = (\<not> isClickable ind) \<and>
         (isClickable ind \<longrightarrow>
            click_indicator v ind c' = goToStep (ctx_goToStep v) i c') \<and>
         (\<not> isClickable ind \<longrightarrow>
            disabled ind \<and> click_indicator v ind c' = c' \<and> indicator_onClick v ind c' = c')"
proof -
  have cur: "ctx_currentStep v = currentStep c"
    by (simp add: v_def StepPageContext_value)
  have ind: "ind = indicator_of v (length steps) (index, steps ! index)"
    unfolding ind_def using assms(4) by (rule StepPages_nth)
  have fields: "stepNumber ind = i" "isCompleted ind = (i < currentStep c)"
    "isActive ind = (i = currentStep c)" "isClickable ind = (i \<le> currentStep c)"
    "disabled ind = (\<not> isClickable ind)"
    by (simp_all add: ind indicator_of_def Let_def i_def cur)
  have len: "length (StepPages steps v) = length steps"
    by (simp add: StepPages_def)
  have on: "isClickable ind \<Longrightarrow> click_indicator v ind c' = goToStep (ctx_goToStep v) i c'"
    by (simp add: click_indicator_def click_def indicator_onClick_def fields)
  have off: "\<not> isClickable ind \<Longrightarrow> click_indicator v ind c' = c' \<and> indicator_onClick v ind c' = c'"
    by (simp add: click_indicator_def click_def indicator_onClick_def fields)
  from len fields on off show ?thesis by blast
qed

text \<open>
  Claim C7 with \<^verbatim>\<open>currentStep = 2\<close> among four steps: the second indicator is
  clickable and jumps to step 2, the third is disabled and a click on it changes nothing.
\<close>

theorem indicator_status_and_click_witness:
  "(1::nat) < length steps_ABCD \<and>
   isClickable (StepPages steps_ABCD (StepPageContext [] uncontrolled_at_2_of_4) ! 1) \<and>
   click_indicator (StepPageContext [] uncontrolled_at_2_of_4)
     (StepPages steps_ABCD (StepPageContext [] uncontrolled_at_2_of_4) ! 1) uncontrolled_at_2_of_4
     = goToStep (ctx_goToStep (StepPageContext [] uncontrolled_at_2_of_4)) 2 uncontrolled_at_2_of_4 \<and>
   (2::nat) < length steps_ABCD \<and>
   \<not> isClickable (StepPages steps_ABCD (StepPageContext [] uncontrolled_at_2_of_4) ! 2) \<and>
   disabled (StepPages steps_ABCD (StepPageContext [] uncontrolled_at_2_of_4) ! 2) \<and>
   click_indicator (StepPageContext [] uncontrolled_at_2_of_4)
     (StepPages steps_ABCD (StepPageContext [] uncontrolled_at_2_of_4) ! 2) uncontrolled_at_2_of_4
     = uncontrolled_at_2_of_4"
proof -
  have h1: "(1::nat) < length steps_ABCD" and h2: "(2::nat) < length steps_ABCD"
    by (simp_all add: steps_ABCD_def)
  have cur: "currentStep uncontrolled_at_2_of_4 = 2"
    by (simp add: uncontrolled_at_2_of_4_def currentStep_def)
  note w1 = indicator_status_and_click
    [where steps = steps_ABCD and index = 1 and earlier = "[]" and c = uncontrolled_at_2_of_4
       and c' = uncontrolled_at_2_of_4, OF h1]
  note w2 = indicator_status_and_click
    [where steps = steps_ABCD and index = 2 and earlier = "[]" and c = uncontrolled_at_2_of_4
       and c' = uncontrolled_at_2_of_4, OF h2]
  from w1 cur have c1:
    "isClickable (StepPages steps_ABCD (StepPageContext [] uncontrolled_at_2_of_4) ! 1)"
    by simp
  with w1 have c2: "click_indicator (StepPageContext [] uncontrolled_at_2_of_4)
     (StepPages steps_ABCD (StepPageContext [] uncontrolled_at_2_of_4) ! 1) uncontrolled_at_2_of_4
     = goToStep (ctx_goToStep (StepPageContext [] uncontrolled_at_2_of_4)) 2 uncontrolled_at_2_of_4"
    by simp
  from w2 cur have c3:
    "\<not> isClickable (StepPages steps_ABCD (StepPageContext [] uncontrolled_at_2_of_4) ! 2)"
    by simp
  with w2 have c4: "disabled (StepPages steps_ABCD (StepPageContext [] uncontrolled_at_2_of_4) ! 2)"
    and c5: "click_indicator (StepPageContext [] uncontrolled_at_2_of_4)
     (StepPages steps_ABCD (StepPageContext [] uncontrolled_at_2_of_4) ! 2) uncontrolled_at_2_of_4
     = uncontrolled_at_2_of_4"
    by blast+
  from h1 h2 c1 c2 c3 c4 c5 show ?thesis by blast
qed

subsection \<open>Registration of the step count\<close>

text \<open>
  When \<^verbatim>\<open>StepPages\<close> has the setter, its first effect makes \<^verbatim>\<open>totalSteps\<close> the
  length of the list, a later render with a list of the same length runs no effect, and
  setting the same count twice is setting it once. \<^verbatim>\<open>StepPages\<close> has the setter when
  it is itself a child of \<^verbatim>\<open>StepPage\<close>.
\<close>

lemma StepPages_effect_registers:
  "totalSteps (StepPages_effect None True steps c) = int (length steps)"
  by (simp add: StepPages_effect_def setTotalSteps_def)

lemma StepPages_effect_same_length:
  "length steps' = length steps \<Longrightarrow>
   StepPages_effect (Some (length steps)) has_setTotalSteps steps' c = c"
  by (simp add: StepPages_effect_def)

lemma setTotalSteps_idem: "setTotalSteps n (setTotalSteps n c) = setTotalSteps n c"
  by (simp add: setTotalSteps_def)

lemma StepPages_effect_without_prop: "StepPages_effect last_length False steps c = c"
  by (simp add: StepPages_effect_def)

lemma mount_direct_child:
  "totalSteps (mount p [Element (StepPagesT steps) False []]) = int (length steps)"
  by (simp add: mount_def StepPage_children_def StepPages_effect_registers)

lemma mount_under_header:
  "mount p [Element StepPageHeaderT False [Element (StepPagesT steps) False []]] = StepPage_mount p"
  by (simp add: mount_def StepPage_children_def StepPages_effect_without_prop)

text \<open>
  Claim C5, on the composition that every usage example has: \<^verbatim>\<open>StepPages\<close> inside
  \<^verbatim>\<open>StepPageHeader\<close>. The header is the child that receives the setter, and it passes
  on its children unchanged, so \<^verbatim>\<open>StepPages\<close> calls nothing: with three steps declared
  \<^verbatim>\<open>totalSteps\<close> is still 0 after mounting, \<^verbatim>\<open>canGoNext\<close> is false on the first
  step, and \<^verbatim>\<open>nextStep\<close> changes nothing.
\<close>

theorem StepPages_under_header_registers_nothing:
  "totalSteps (mount no_props BasicStepPageExample) = 0 \<and>
   canGoNext (StepPageContext [] (mount no_props BasicStepPageExample)) = False \<and>
   navigate [NextStep] [] (mount no_props BasicStepPageExample)
     = mount no_props BasicStepPageExample"
proof -
  have cur: "ctx_currentStep (StepPageContext [] (StepPage_mount no_props)) = 1"
    by (simp add: StepPageContext_value currentStep_def StepPage_mount_def no_props_def)
  have m: "mount no_props BasicStepPageExample = StepPage_mount no_props"
    by (simp add: mount_def BasicStepPageExample_def StepPage_children_def
          StepPages_effect_without_prop StepItem_def cur)
  have t: "totalSteps (StepPage_mount no_props) = 0"
    by (simp add: StepPage_mount_def)
  have n: "canGoNext (StepPageContext [] (StepPage_mount no_props)) = False"
    by (simp add: StepPageContext_value t currentStep_def StepPage_mount_def no_props_def)
  have g: "navigate [NextStep] [] (StepPage_mount no_props) = StepPage_mount no_props"
    by (auto simp: ctx_nextStep_fresh goToStep_def t)
  from m t n g show ?thesis by simp
qed

section \<open>Which panes render\<close>

lemma StepItem_iff:
  "StepItem k ch (StepPageContext earlier c) = (if k = currentStep c then Some ch else None)"
  by (auto simp: StepItem_def StepPageContext_value)

lemma panes_output_filter:
  "panes_output panes (StepPageContext earlier c) =
     map snd (filter (\<lambda>(k, ch). k = currentStep c) panes)"
  by (induction panes) (auto simp: panes_output_def List.map_filter_simps StepItem_iff)

lemma distinct_fst_filter_le_1:
  "distinct (map fst panes) \<Longrightarrow> length (filter (\<lambda>(k, ch). k = x) panes) \<le> 1"
proof (induction panes)
  case Nil
  then show ?case by simp
next
  case (Cons p panes)
  obtain k ch where p: "p = (k, ch)" by (cases p)
  show ?case
  proof (cases "k = x")
    case True
    with Cons.prems p have "x \<notin> fst ` set panes" by simp
    then have "filter (\<lambda>(k, ch). k = x) panes = []"
      by (force simp: filter_empty_conv)
    with True p show ?thesis by simp
  next
    case False
    with Cons p show ?thesis by simp
  qed
qed

lemma filter_fst_nonempty:
  "filter (\<lambda>(k, ch). k = x) panes \<noteq> [] \<longleftrightarrow> x \<in> fst ` set panes"
  by (force simp: filter_empty_conv)

text \<open>
  Claim C6, amended. A pane declared with \<^verbatim>\<open>step = k\<close> renders its content exactly
  when \<^verbatim>\<open>k\<close> is \<^verbatim>\<open>currentStep\<close> and renders nothing at all otherwise, so the output
  of a list of panes is the content of those declared for \<^verbatim>\<open>currentStep\<close>. Among
  panes declared for distinct steps at most one is in the output, and exactly one if and
  only if some pane is declared for \<^verbatim>\<open>currentStep\<close>.
\<close>

theorem StepItem_renders_iff_current:
  fixes panes :: "(int \<times> 'a) list"
  shows "(StepItem k ch (StepPageContext earlier c) = Some ch \<longleftrightarrow> k = currentStep c) \<and>
   (StepItem k ch (StepPageContext earlier c) = None \<longleftrightarrow> k \<noteq> currentStep c) \<and>
   panes_output panes (StepPageContext earlier c) =
     map snd (filter (\<lambda>(k, ch). k = currentStep c) panes) \<and>
   (distinct (map fst panes) \<longrightarrow>
      length (panes_output panes (StepPageContext earlier c)) \<le> 1 \<and>
      (length (panes_output panes (StepPageContext earlier c)) = 1 \<longleftrightarrow>
         currentStep c \<in> fst ` set panes))"
proof -
  let ?out = "panes_output panes (StepPageContext earlier c)"
  let ?f = "filter (\<lambda>(k, ch). k = currentStep c) panes"
  have out: "?out = map snd ?f" by (rule panes_output_filter)
  have "length ?out \<le> 1 \<and> (length ?out = 1 \<longleftrightarrow> currentStep c \<in> fst ` set panes)"
    if d: "distinct (map fst panes)"
  proof -
    have le: "length ?f \<le> 1" using d by (rule distinct_fst_filter_le_1)
    have "length ?f = 1 \<longleftrightarrow> ?f \<noteq> []" using le by (cases ?f) auto
    then have "length ?f = 1 \<longleftrightarrow> currentStep c \<in> fst ` set panes"
      by (simp only: filter_fst_nonempty)
    with le show ?thesis by (simp add: out)
  qed
  then show ?thesis by (simp add: out StepItem_iff)
qed

text \<open>
  Claim C6 as stated fails with panes for steps 1, 2 and 3 and \<^verbatim>\<open>defaultStep = 7\<close>:
  no pane is in the output.
\<close>

theorem exactly_one_pane_counterexample:
  "distinct (map fst panes_123) \<and> currentStep default_7_of_3 = 7 \<and>
   panes_output panes_123 (StepPageContext [] default_7_of_3) = []"
proof -
  have cur: "currentStep default_7_of_3 = 7"
    by (simp add: default_7_of_3_def StepPages_effect_def StepPage_mount_def setTotalSteps_def
          currentStep_def)
  have "panes_output panes_123 (StepPageContext [] default_7_of_3) = []"
    by (simp add: panes_output_filter cur panes_123_def)
  with cur show ?thesis by (simp add: panes_123_def)
qed

text \<open>
  The amended claim C6 with panes for steps 1, 2 and 3 and \<^verbatim>\<open>currentStep = 2\<close>: only
  the second pane is in the output.
\<close>

theorem StepItem_renders_iff_current_witness:
  "distinct (map fst panes_123) \<and>
   panes_output panes_123 (StepPageContext [] uncontrolled_at_2_of_4) = [''two''] \<and>
   length (panes_output panes_123 (StepPageContext [] uncontrolled_at_2_of_4)) \<le> 1"
proof -
  have h: "distinct (map fst panes_123)" by (simp add: panes_123_def)
  have cur: "currentStep uncontrolled_at_2_of_4 = 2"
    by (simp add: uncontrolled_at_2_of_4_def currentStep_def)
  note w = StepItem_renders_iff_current
    [where panes = panes_123 and earlier = "[]" and c = uncontrolled_at_2_of_4 and k = 2
       and ch = "''two''"]
  from w have "panes_output panes_123 (StepPageContext [] uncontrolled_at_2_of_4) =
     map snd (filter (\<lambda>(k, ch). k = currentStep uncontrolled_at_2_of_4) panes_123)"
    by blast
  then have c1: "panes_output panes_123 (StepPageContext [] uncontrolled_at_2_of_4) = [''two'']"
    by (simp add: cur panes_123_def)
  from w h have c2: "length (panes_output panes_123 (StepPageContext [] uncontrolled_at_2_of_4)) \<le> 1"
    by blast
  from h c1 c2 show ?thesis by blast
qed

section \<open>Gated navigation from the footer\<close>

lemma suspended_finish [simp]: "suspended (finish r s) = suspended s"
  by (simp add: finish_def)

lemma ctrl_finish [simp]: "ctrl (finish r s) = ctrl s"
  by (simp add: finish_def)

lemma isLoading_finish [simp]: "isLoading (finish r s) = False"
  by (simp add: finish_def)

lemma results_finish [simp]: "results (finish r s) = results s @ [r]"
  by (simp add: finish_def)

lemma isLoading_resume [simp]:
  "isLoading (handleNext_resume outcome f s) = False"
  "isLoading (handlePrev_resume outcome f s) = False"
  by (simp_all add: handleNext_resume_def handlePrev_resume_def split: settled.splits)

lemma resume_Rejected [simp]:
  "handleNext_resume (Rejected e) f s = finish (Inl e) s"
  "handlePrev_resume (Rejected e) f s = finish (Inl e) s"
  by (simp_all add: handleNext_resume_def handlePrev_resume_def)

lemma settle_last:
  "settle (length (suspended s)) outcome (s\<lparr>suspended := suspended s @ [x]\<rparr>) =
     (case x of AwaitingOnNext f \<Rightarrow> handleNext_resume outcome f s
              | AwaitingOnPrev f \<Rightarrow> handlePrev_resume outcome f s)"
  by (simp add: settle_def Let_def split: suspended.splits)

lemma isLoading_settle:
  "k < length (suspended s) \<Longrightarrow> isLoading (settle k outcome s) = False"
  by (simp add: settle_def Let_def split: suspended.splits)

lemma settle_Rejected:
  "k < length (suspended s) \<Longrightarrow>
   settle k (Rejected e) s =
     s\<lparr>suspended := take k (suspended s) @ drop (Suc k) (suspended s),
       isLoading := False, results := results s @ [Inl e]\<rparr>"
  by (simp add: settle_def Let_def finish_def split: suspended.splits)

lemma handleNext_with_hook:
  "onNext props = Some hook \<Longrightarrow>
   handleNext props v s =
     s\<lparr>isLoading := True, ctrl := invoke hook [] (ctrl s),
       suspended := suspended s @ [AwaitingOnNext (ctx_nextStep v)]\<rparr>"
  by (simp add: handleNext_def Let_def)

lemma handlePrev_with_hook:
  "onPrev props = Some hook \<Longrightarrow>
   handlePrev props v s =
     s\<lparr>isLoading := True, ctrl := invoke hook [] (ctrl s),
       suspended := suspended s @ [AwaitingOnPrev (ctx_prevStep v)]\<rparr>"
  by (simp add: handlePrev_def Let_def)

lemma handleNext_then_settle:
  assumes "onNext props = Some hook"
  shows "settle (length (suspended s)) outcome (handleNext props v s) =
           handleNext_resume outcome (ctx_nextStep v)
             (s\<lparr>isLoading := True, ctrl := invoke hook [] (ctrl s)\<rparr>)"
proof -
  let ?s1 = "s\<lparr>isLoading := True, ctrl := invoke hook [] (ctrl s)\<rparr>"
  have "handleNext props v s = ?s1\<lparr>suspended := suspended ?s1 @ [AwaitingOnNext (ctx_nextStep v)]\<rparr>"
    using assms by (simp add: handleNext_with_hook)
  moreover have "length (suspended s) = length (suspended ?s1)" by simp
  ultimately show ?thesis by (simp only: settle_last suspended.case)
qed

lemma handlePrev_then_settle:
  assumes "onPrev props = Some hook"
  shows "settle (length (suspended s)) outcome (handlePrev props v s) =
           handlePrev_resume outcome (ctx_prevStep v)
             (s\<lparr>isLoading := True, ctrl := invoke hook [] (ctrl s)\<rparr>)"
proof -
  let ?s1 = "s\<lparr>isLoading := True, ctrl := invoke hook [] (ctrl s)\<rparr>"
  have "handlePrev props v s = ?s1\<lparr>suspended := suspended ?s1 @ [AwaitingOnPrev (ctx_prevStep v)]\<rparr>"
    using assms by (simp add: handlePrev_with_hook)
  moreover have "length (suspended s) = length (suspended ?s1)" by simp
  ultimately show ?thesis by (simp only: settle_last suspended.case)
qed

text \<open>
  Claim C3. When the hook of \<^verbatim>\<open>handleNext\<close> or \<^verbatim>\<open>handlePrev\<close> fails, the footer
  and the component are afterwards as they were before the click, except that the hook has
  been called, the footer is not loading, and the promise of the handler is rejected with
  the error of the hook: \<^verbatim>\<open>nextStep\<close> or \<^verbatim>\<open>prevStep\<close> was not called and
  \<^verbatim>\<open>currentStep\<close> is unchanged. The same holds for any suspended call, whatever
  happened while it waited. The footer is not loading either after a hook that succeeds,
  or after a handler that has no hook.
\<close>

theorem hook_failure_is_not_committed:
  "(onNext props = Some hook \<longrightarrow>
      isLoading (handleNext props v s) \<and>
      settle (length (suspended s)) (Rejected e) (handleNext props v s) =
        s\<lparr>ctrl := invoke hook [] (ctrl s), isLoading := False,
          results := results s @ [Inl e]\<rparr> \<and>
      currentStep (ctrl (settle (length (suspended s)) (Rejected e) (handleNext props v s)))
        = currentStep (ctrl s) \<and>
      \<not> isLoading (settle (length (suspended s)) Fulfilled (handleNext props v s))) \<and>
   (onPrev props = Some hook \<longrightarrow>
      isLoading (handlePrev props v s) \<and>
      settle (length (suspended s)) (Rejected e) (handlePrev props v s) =
        s\<lparr>ctrl := invoke hook [] (ctrl s), isLoading := False,
          results := results s @ [Inl e]\<rparr> \<and>
      currentStep (ctrl (settle (length (suspended s)) (Rejected e) (handlePrev props v s)))
        = currentStep (ctrl s) \<and>
      \<not> isLoading (settle (length (suspended s)) Fulfilled (handlePrev props v s))) \<and>
   (k < length (suspended s) \<longrightarrow>
      ctrl (settle k (Rejected e) s) = ctrl s \<and>
      results (settle k (Rejected e) s) = results s @ [Inl e] \<and>
      \<not> isLoading (settle k outcome s)) \<and>
   (onNext props = None \<longrightarrow> \<not> isLoading (handleNext props v s)) \<and>
   (onPrev props = None \<longrightarrow> \<not> isLoading (handlePrev props v s))"
proof -
  have nxt: "isLoading (handleNext props v s) \<and>
      settle (length (suspended s)) (Rejected e) (handleNext props v s) =
        s\<lparr>ctrl := invoke hook [] (ctrl s), isLoading := False,
          results := results s @ [Inl e]\<rparr> \<and>
      currentStep (ctrl (settle (length (suspended s)) (Rejected e) (handleNext props v s)))
        = currentStep (ctrl s) \<and>
      \<not> isLoading (settle (length (suspended s)) Fulfilled (handleNext props v s))"
    if h: "onNext props = Some hook"
    by (simp add: handleNext_then_settle [OF h] finish_def) (simp add: handleNext_with_hook [OF h])
  have prv: "isLoading (handlePrev props v s) \<and>
      settle (length (suspended s)) (Rejected e) (handlePrev props v s) =
        s\<lparr>ctrl := invoke hook [] (ctrl s), isLoading := False,
          results := results s @ [Inl e]\<rparr> \<and>
      currentStep (ctrl (settle (length (suspended s)) (Rejected e) (handlePrev props v s)))
        = currentStep (ctrl s) \<and>
      \<not> isLoading (settle (length (suspended s)) Fulfilled (handlePrev props v s))"
    if h: "onPrev props = Some hook"
    by (simp add: handlePrev_then_settle [OF h] finish_def) (simp add: handlePrev_with_hook [OF h])
  have gen: "ctrl (settle k (Rejected e) s) = ctrl s \<and>
      results (settle k (Rejected e) s) = results s @ [Inl e] \<and>
      \<not> isLoading (settle k outcome s)"
    if "k < length (suspended s)"
    using that by (simp add: settle_Rejected isLoading_settle)
  have none: "\<not> isLoading (handleNext props v s)" if "onNext props = None"
    using that by (simp add: handleNext_def Let_def)
  have none': "\<not> isLoading (handlePrev props v s)" if "onPrev props = None"
    using that by (simp add: handlePrev_def Let_def)
  from nxt prv gen none none' show ?thesis by blast
qed

text \<open>
  Claim C3 on step 1 of 3: a hook on each handler failing with
  \<^verbatim>\<open>Validation failed\<close>, a suspended call whose hook fails, and handlers without hooks.
\<close>

theorem hook_failure_is_not_committed_witness:
  "onNext footer_with_hooks = Some (Callback 1) \<and>
   settle (length (suspended idle_at_1_of_3)) (Rejected ''Validation failed'')
      (handleNext footer_with_hooks (StepPageContext [] uncontrolled_at_1_of_3) idle_at_1_of_3) =
     idle_at_1_of_3\<lparr>ctrl := invoke (Callback 1) [] (ctrl idle_at_1_of_3), isLoading := False,
       results := results idle_at_1_of_3 @ [Inl ''Validation failed'']\<rparr> \<and>
   onPrev footer_with_hooks = Some (Callback 2) \<and>
   currentStep (ctrl (settle (length (suspended idle_at_1_of_3)) (Rejected ''Validation failed'')
      (handlePrev footer_with_hooks (StepPageContext [] uncontrolled_at_1_of_3) idle_at_1_of_3)))
     = currentStep (ctrl idle_at_1_of_3) \<and>
   0 < length (suspended awaiting_at_1_of_3) \<and>
   ctrl (settle 0 (Rejected ''Validation failed'') awaiting_at_1_of_3) = ctrl awaiting_at_1_of_3 \<and>
   \<not> isLoading (settle 0 (Rejected ''Validation failed'') awaiting_at_1_of_3) \<and>
   onNext footer_plain = None \<and>
   \<not> isLoading (handleNext footer_plain (StepPageContext [] uncontrolled_at_1_of_3) idle_at_1_of_3) \<and>
   onPrev footer_plain = None \<and>
   \<not> isLoading (handlePrev footer_plain (StepPageContext [] uncontrolled_at_1_of_3) idle_at_1_of_3)"
proof -
  have h1: "onNext footer_with_hooks = Some (Callback 1)"
    and h2: "onPrev footer_with_hooks = Some (Callback 2)"
    by (simp_all add: footer_with_hooks_def)
  have h4: "onNext footer_plain = None" and h5: "onPrev footer_plain = None"
    by (simp_all add: footer_plain_def)
  have "suspended awaiting_at_1_of_3 =
      suspended (handleNext footer_with_hooks (StepPageContext [] uncontrolled_at_1_of_3)
        idle_at_1_of_3)"
    unfolding awaiting_at_1_of_3_def by (rule refl)
  then have h3: "0 < length (suspended awaiting_at_1_of_3)"
    by (simp add: handleNext_with_hook [OF h1])
  note w1 = hook_failure_is_not_committed
    [where props = footer_with_hooks and hook = "Callback 1" and s = idle_at_1_of_3
       and v = "StepPageContext [] uncontrolled_at_1_of_3" and e = "''Validation failed''"
       and k = 0 and outcome = Fulfilled]
  note w2 = hook_failure_is_not_committed
    [where props = footer_with_hooks and hook = "Callback 2" and s = idle_at_1_of_3
       and v = "StepPageContext [] uncontrolled_at_1_of_3" and e = "''Validation failed''"
       and k = 0 and outcome = Fulfilled]
  note w3 = hook_failure_is_not_committed
    [where props = footer_with_hooks and hook = "Callback 1" and s = awaiting_at_1_of_3
       and v = "StepPageContext [] uncontrolled_at_1_of_3" and e = "''Validation failed''"
       and k = 0 and outcome = "Rejected ''Validation failed''"]
  note w4 = hook_failure_is_not_committed
    [where props = footer_plain and hook = "Callback 1" and s = idle_at_1_of_3
       and v = "StepPageContext [] uncontrolled_at_1_of_3" and e = "''Validation failed''"
       and k = 0 and outcome = Fulfilled]
  from w1 h1 have c1: "settle (length (suspended idle_at_1_of_3)) (Rejected ''Validation failed'')
      (handleNext footer_with_hooks (StepPageContext [] uncontrolled_at_1_of_3) idle_at_1_of_3) =
     idle_at_1_of_3\<lparr>ctrl := invoke (Callback 1) [] (ctrl idle_at_1_of_3), isLoading := False,
       results := results idle_at_1_of_3 @ [Inl ''Validation failed'']\<rparr>"
    by blast
  from w2 h2 have c2: "currentStep (ctrl (settle (length (suspended idle_at_1_of_3))
      (Rejected ''Validation failed'')
      (handlePrev footer_with_hooks (StepPageContext [] uncontrolled_at_1_of_3) idle_at_1_of_3)))
     = currentStep (ctrl idle_at_1_of_3)"
    by blast
  from w3 h3 have c3:
    "ctrl (settle 0 (Rejected ''Validation failed'') awaiting_at_1_of_3) = ctrl awaiting_at_1_of_3"
    "\<not> isLoading (settle 0 (Rejected ''Validation failed'') awaiting_at_1_of_3)"
    by blast+
  from w4 h4 h5 have c4:
    "\<not> isLoading (handleNext footer_plain (StepPageContext [] uncontrolled_at_1_of_3) idle_at_1_of_3)"
    "\<not> isLoading (handlePrev footer_plain (StepPageContext [] uncontrolled_at_1_of_3) idle_at_1_of_3)"
    by blast+
  from h1 h2 h3 h4 h5 c1 c2 c3 c4 show ?thesis by blast
qed

lemma StepPageFooter_default:
  assumes "\<not> footer_children props" "showDefaultActions props \<noteq> Some False"
  shows "\<exists>a. StepPageFooter props v loading = DefaultActions a \<and>
             prev_disabled a = (\<not> canGoPrev v \<or> loading) \<and>
             next_disabled a = (\<not> canGoNext v \<or> loading)"
  using assms by (cases "showDefaultActions props") (auto simp: StepPageFooter_def Let_def)

lemma StepPageFooter_disabled:
  assumes "StepPageFooter props v loading = DefaultActions a"
  shows "prev_disabled a = (\<not> canGoPrev v \<or> loading) \<and>
         next_disabled a = (\<not> canGoNext v \<or> loading)"
  using assms by (auto simp: StepPageFooter_def Let_def split: if_splits)

lemma click_while_loading:
  assumes "isLoading s"
  shows "click_next props v s = s" "click_prev props v s = s"
proof -
  show "click_next props v s = s"
  proof (cases "StepPageFooter props v (isLoading s)")
    case (DefaultActions a)
    with StepPageFooter_disabled [OF DefaultActions] assms show ?thesis
      by (simp add: click_next_def Button_click_def)
  qed (simp_all add: click_next_def)
  show "click_prev props v s = s"
  proof (cases "StepPageFooter props v (isLoading s)")
    case (DefaultActions a)
    with StepPageFooter_disabled [OF DefaultActions] assms show ?thesis
      by (simp add: click_prev_def Button_click_def)
  qed (simp_all add: click_prev_def)
qed

lemma click_next_enabled:
  assumes "\<not> footer_children props" "showDefaultActions props \<noteq> Some False"
    "\<not> isLoading s" "canGoNext v"
  shows "click_next props v s = handleNext props v s"
proof -
  from StepPageFooter_default [OF assms(1,2)] obtain a where
    "StepPageFooter props v (isLoading s) = DefaultActions a"
    "next_disabled a = (\<not> canGoNext v \<or> isLoading s)" by blast
  with assms(3,4) show ?thesis by (simp add: click_next_def Button_click_def)
qed

text \<open>
  Claim C4. The Previous button is disabled exactly when \<^verbatim>\<open>!canGoPrev || isLoading\<close>
  and the Next button exactly when \<^verbatim>\<open>!canGoNext || isLoading\<close>, so while the footer is
  loading a click on either changes nothing. When Next is clicked on an idle footer with a
  hook and clicked again while the hook is pending, the second click is ignored, and once
  the hook succeeds the component is where the single call of \<^verbatim>\<open>nextStep\<close> of the
  first click takes it, with nothing left pending: one step forward, not two.
\<close>

theorem footer_buttons_disabled_while_navigating:
  fixes props :: StepPageFooterProps and s :: "'e footer"
    and earlier earlier' :: "controller list"
  defines "v \<equiv> StepPageContext earlier (ctrl s)"
  defines "s1 \<equiv> click_next props v s"
  defines "s2 \<equiv> click_next props (StepPageContext earlier' (ctrl s1)) s1"
  defines "s3 \<equiv> settle (length (suspended s)) Fulfilled s2"
  shows
   "(StepPageFooter props w loading = DefaultActions a \<longrightarrow>
       prev_disabled a = (\<not> canGoPrev w \<or> loading) \<and>
       next_disabled a = (\<not> canGoNext w \<or> loading)) \<and>
    (isLoading s \<longrightarrow> click_next props w s = s \<and> click_prev props w s = s) \<and>
    (\<not> isLoading s \<and> currentStep (ctrl s) < totalSteps (ctrl s) \<and>
     \<not> footer_children props \<and> showDefaultActions props \<noteq> Some False \<and>
     onNext props = Some hook \<longrightarrow>
       isLoading s1 \<and> s2 = s1 \<and>
       s3 = s\<lparr>ctrl := goToStep (ctrl s) (currentStep (ctrl s) + 1) (invoke hook [] (ctrl s)),
              results := results s @ [Inr ()]\<rparr> \<and>
       (\<not> isControlled (ctrl s) \<and> 0 \<le> currentStep (ctrl s) \<longrightarrow>
          currentStep (ctrl s3) = currentStep (ctrl s) + 1))"
proof -
  have main: "isLoading s1 \<and> s2 = s1 \<and>
       s3 = s\<lparr>ctrl := goToStep (ctrl s) (currentStep (ctrl s) + 1) (invoke hook [] (ctrl s)),
              results := results s @ [Inr ()]\<rparr> \<and>
       (\<not> isControlled (ctrl s) \<and> 0 \<le> currentStep (ctrl s) \<longrightarrow>
          currentStep (ctrl s3) = currentStep (ctrl s) + 1)"
    if idle: "\<not> isLoading s" and can: "currentStep (ctrl s) < totalSteps (ctrl s)"
      and shown: "\<not> footer_children props" "showDefaultActions props \<noteq> Some False"
      and hook: "onNext props = Some hook"
  proof -
    have "canGoNext v" using can by (simp add: v_def StepPageContext_value)
    then have s1: "s1 = handleNext props v s"
      unfolding s1_def using shown idle by (intro click_next_enabled)
    then have l1: "isLoading s1" by (simp add: handleNext_with_hook [OF hook])
    then have s2: "s2 = s1" unfolding s2_def by (rule click_while_loading)
    have "s3 = handleNext_resume Fulfilled (ctx_nextStep v)
                 (s\<lparr>isLoading := True, ctrl := invoke hook [] (ctrl s)\<rparr>)"
      unfolding s3_def s2 s1 by (rule handleNext_then_settle [OF hook])
    then have s3: "s3 = s\<lparr>ctrl := goToStep (ctrl s) (currentStep (ctrl s) + 1) (invoke hook [] (ctrl s)),
              results := results s @ [Inr ()]\<rparr>"
      using idle by (simp add: handleNext_resume_def finish_def v_def ctx_nextStep_fresh)
    have "currentStep (ctrl s3) = currentStep (ctrl s) + 1"
      if "\<not> isControlled (ctrl s)" "0 \<le> currentStep (ctrl s)"
      using that can
      by (simp add: s3 goToStep_def setInternalStep_def invoke_def currentStep_def isControlled_def)
    with l1 s2 s3 show ?thesis by blast
  qed
  have dis: "prev_disabled a = (\<not> canGoPrev w \<or> loading) \<and>
       next_disabled a = (\<not> canGoNext w \<or> loading)"
    if "StepPageFooter props w loading = DefaultActions a"
    using that by (rule StepPageFooter_disabled)
  have ign: "click_next props w s = s \<and> click_prev props w s = s" if "isLoading s"
    using that by (simp add: click_while_loading)
  from main dis ign show ?thesis by blast
qed

text \<open>
  Claim C4 on step 1 of 3: both buttons of the loading footer are disabled, the second
  click changes nothing, and after the hook the component is on step 2.
\<close>

theorem footer_buttons_disabled_while_navigating_witness:
  "StepPageFooter footer_with_hooks (StepPageContext [] uncontrolled_at_1_of_3) True
     = DefaultActions buttons_while_loading \<and>
   prev_disabled buttons_while_loading =
     (\<not> canGoPrev (StepPageContext [] uncontrolled_at_1_of_3) \<or> True) \<and>
   isLoading loading_at_1_of_3 \<and>
   click_next footer_with_hooks (StepPageContext [] uncontrolled_at_1_of_3) loading_at_1_of_3
     = loading_at_1_of_3 \<and>
   (\<not> isLoading idle_at_1_of_3 \<and>
    currentStep (ctrl idle_at_1_of_3) < totalSteps (ctrl idle_at_1_of_3) \<and>
    \<not> footer_children footer_with_hooks \<and> showDefaultActions footer_with_hooks \<noteq> Some False \<and>
    onNext footer_with_hooks = Some (Callback 1)) \<and>
   (\<not> isControlled (ctrl idle_at_1_of_3) \<and> 0 \<le> currentStep (ctrl idle_at_1_of_3)) \<and>
   currentStep (ctrl (settle (length (suspended idle_at_1_of_3)) Fulfilled
     (click_next footer_with_hooks (StepPageContext [] (ctrl loading_at_1_of_3)) loading_at_1_of_3)))
     = currentStep (ctrl idle_at_1_of_3) + 1"
proof -
  have ctrl: "ctrl idle_at_1_of_3 = uncontrolled_at_1_of_3"
    by (simp add: idle_at_1_of_3_def)
  have h1: "StepPageFooter footer_with_hooks (StepPageContext [] uncontrolled_at_1_of_3) True
     = DefaultActions buttons_while_loading"
    by (simp add: StepPageFooter_def footer_with_hooks_def buttons_while_loading_def
          StepPageContext_value uncontrolled_at_1_of_3_def currentStep_def)
  have h3: "\<not> isLoading idle_at_1_of_3 \<and>
    currentStep (ctrl idle_at_1_of_3) < totalSteps (ctrl idle_at_1_of_3) \<and>
    \<not> footer_children footer_with_hooks \<and> showDefaultActions footer_with_hooks \<noteq> Some False \<and>
    onNext footer_with_hooks = Some (Callback 1)"
    by (simp add: idle_at_1_of_3_def footer_with_hooks_def uncontrolled_at_1_of_3_def
          currentStep_def)
  have h4: "\<not> isControlled (ctrl idle_at_1_of_3) \<and> 0 \<le> currentStep (ctrl idle_at_1_of_3)"
    by (simp add: idle_at_1_of_3_def uncontrolled_at_1_of_3_def currentStep_def isControlled_def)
  note w1 = footer_buttons_disabled_while_navigating
    [where props = footer_with_hooks and s = idle_at_1_of_3 and earlier = "[]"
       and earlier' = "[]" and w = "StepPageContext [] uncontrolled_at_1_of_3" and loading = True
       and a = buttons_while_loading and hook = "Callback 1"]
  from w1 h1 have c1: "prev_disabled buttons_while_loading =
     (\<not> canGoPrev (StepPageContext [] uncontrolled_at_1_of_3) \<or> True)"
    by blast
  from w1 h3 have h2: "isLoading loading_at_1_of_3"
    unfolding loading_at_1_of_3_def by blast
  note w2 = footer_buttons_disabled_while_navigating
    [where props = footer_with_hooks and s = loading_at_1_of_3 and earlier = "[]"
       and earlier' = "[]" and w = "StepPageContext [] uncontrolled_at_1_of_3" and loading = True
       and a = buttons_while_loading and hook = "Callback 1"]
  from w2 h2 have c2:
    "click_next footer_with_hooks (StepPageContext [] uncontrolled_at_1_of_3) loading_at_1_of_3
       = loading_at_1_of_3"
    by blast
  from w1 h3 h4 have c3:
    "currentStep (ctrl (settle (length (suspended idle_at_1_of_3)) Fulfilled
     (click_next footer_with_hooks (StepPageContext [] (ctrl loading_at_1_of_3)) loading_at_1_of_3)))
     = currentStep (ctrl idle_at_1_of_3) + 1"
    unfolding loading_at_1_of_3_def by blast
  from h1 c1 h2 c2 h3 h4 c3 show ?thesis by blast
qed

end
